theory Spec2Isabelle
  imports Complex_Main "HOL-Library.Multiset" "HOL-Library.Sublist"
begin

section \<open>Python values\<close>

text \<open>
  Python floats are modelled as exact rationals (\<open>rat\<close>): every finite double is a
  rational, comparisons are exact, and the rounding of \<open>+\<close>, \<open>*\<close> and \<open>/\<close> is idealised
  away. Python integers are \<open>int\<close>. Exceptions are values of \<open>py_error\<close>.
\<close>

datatype py_error = ZeroDivisionError | ValueError | AttributeError | TypeError

text \<open>\<^verbatim>\<open>int(x)\<close> on a float truncates towards zero.\<close>

definition int_of_float :: "rat \<Rightarrow> int" where
  "int_of_float x = (if 0 \<le> x then \<lfloor>x\<rfloor> else \<lceil>x\<rceil>)"

section \<open>Data model (video_analyzer.py, frame_scorer.py)\<close>

record video_info =
  path :: string
  width :: int
  height :: int
  fps :: rat
  frame_count :: int
  duration :: rat
  codec :: string

text \<open>
  The dictionary returned by \<^verbatim>\<open>FrameScorer.score_frame\<close>, with its four keys.
\<close>

record scores =
  face_score :: rat
  sharpness :: rat
  stability :: rat
  total_score :: rat

text \<open>
  A \<^verbatim>\<open>FrameScorer\<close>: the three weights, the mode, and the only mutable state of its
  \<^verbatim>\<open>MotionAnalyzer\<close>, the remembered previous frame. \<open>'f\<close> is the type of decoded
  images.
\<close>

record 'f frame_scorer =
  face_weight :: rat
  sharpness_weight :: rat
  stability_weight :: rat
  fast_mode :: bool
  previous_frame :: "'f option"

text \<open>
  A \<^verbatim>\<open>VideoAnalyzer\<close>. The capture handle is modelled by what a seek to a frame number
  followed by a read returns: \<open>None\<close> when \<^verbatim>\<open>ret\<close> is false.
\<close>

type_synonym 'f capture = "int \<Rightarrow> 'f option"

record 'f video_analyzer =
  video_path :: "string option"
  video_capture :: "'f capture option"
  video_info :: "video_info option"
  frame_scorer :: "'f frame_scorer"

record 'f selected_frame =
  frame_number :: int
  timestamp :: rat
  image :: 'f
  score :: rat
  score_details :: scores
  is_manual :: bool

section \<open>Sampling configuration\<close>

text \<open>
  The keys of \<^verbatim>\<open>SAMPLING_CONFIG\<close> are four integers and \<^verbatim>\<open>float('inf')\<close>; the
  dictionary is iterated in insertion order, so it is an association list.
\<close>

datatype max_duration = Seconds int | Infinite

fun duration_le :: "rat \<Rightarrow> max_duration \<Rightarrow> bool" where
  "duration_le d (Seconds s) = (d \<le> of_int s)"
| "duration_le d Infinite = True"

definition SAMPLING_CONFIG :: "(max_duration \<times> int \<times> int) list" where
  "SAMPLING_CONFIG =
     [(Seconds 300, 500, 2),
      (Seconds 1800, 400, 5),
      (Seconds 7200, 300, 15),
      (Seconds 14400, 250, 30),
      (Infinite, 200, 60)]"

text \<open>The \<^verbatim>\<open>for\<close> loop of \<^verbatim>\<open>_get_sampling_config\<close> with its early return.\<close>

fun sampling_lookup :: "rat \<Rightarrow> (max_duration \<times> int \<times> int) list \<Rightarrow> int \<times> int" where
  "sampling_lookup d [] = (200, 60)"
| "sampling_lookup d ((max_d, cfg) # rest) =
     (if duration_le d max_d then cfg else sampling_lookup d rest)"

definition get_sampling_config :: "'f video_analyzer \<Rightarrow> int \<times> int" where
  "get_sampling_config a =
     (case video_info a of
        None \<Rightarrow> (300, 10)
      | Some vi \<Rightarrow> sampling_lookup (duration vi) SAMPLING_CONFIG)"

section \<open>Frame scorer weights\<close>

text \<open>
  \<^verbatim>\<open>FrameScorer.__init__\<close> and \<^verbatim>\<open>set_weights\<close> divide by the sum of the three
  weights; a float division by zero raises \<^verbatim>\<open>ZeroDivisionError\<close>. In
  \<^verbatim>\<open>set_weights\<close> the first assignment that raises leaves the scorer unchanged.
\<close>

definition FrameScorer_init :: "rat \<Rightarrow> rat \<Rightarrow> rat \<Rightarrow> bool \<Rightarrow> py_error + 'f frame_scorer" where
  "FrameScorer_init fw sw stw fast =
     (let total = fw + sw + stw in
      if total = 0 then Inl ZeroDivisionError
      else Inr \<lparr>face_weight = fw / total,
                sharpness_weight = sw / total,
                stability_weight = stw / total,
                fast_mode = fast,
                previous_frame = None\<rparr>)"

definition set_weights :: "'f frame_scorer \<Rightarrow> rat \<Rightarrow> rat \<Rightarrow> rat \<Rightarrow> py_error + 'f frame_scorer" where
  "set_weights s fw sw stw =
     (let total = fw + sw + stw in
      if total = 0 then Inl ZeroDivisionError
      else Inr (s\<lparr>face_weight := fw / total,
                  sharpness_weight := sw / total,
                  stability_weight := stw / total\<rparr>))"

definition reset :: "'f frame_scorer \<Rightarrow> 'f frame_scorer" where
  "reset s = s\<lparr>previous_frame := None\<rparr>"

section \<open>Sampling positions\<close>

text \<open>
  The \<^verbatim>\<open>while\<close> loop of \<^verbatim>\<open>_calculate_sample_positions\<close>. Nothing in the source
  bounds the number of iterations, so the loop is a partial function: \<open>None\<close> means that
  it never returns.
\<close>

partial_function (option) sample_loop :: "int \<Rightarrow> int \<Rightarrow> int \<Rightarrow> int list \<Rightarrow> int list option" where
  "sample_loop pos stop interval positions =
     (if pos < stop then sample_loop (pos + interval) stop interval (positions @ [pos])
      else Some positions)"

text \<open>
  \<^verbatim>\<open>total_frames // num_samples\<close> raises \<^verbatim>\<open>ZeroDivisionError\<close> for
  \<^verbatim>\<open>num_samples = 0\<close>; otherwise it is floor division, which is \<open>div\<close> on \<open>int\<close>.
\<close>

definition calculate_sample_positions ::
  "'f video_analyzer \<Rightarrow> int \<Rightarrow> rat \<Rightarrow> (py_error + int list) option" where
  "calculate_sample_positions a num_samples min_interval_sec =
     (case video_info a of
        None \<Rightarrow> Some (Inr [])
      | Some vi \<Rightarrow>
          (let total_frames = frame_count vi;
               min_interval_frames = int_of_float (min_interval_sec * fps vi)
           in if num_samples = 0 then Some (Inl ZeroDivisionError)
              else
                (let interval = max min_interval_frames (total_frames div num_samples)
                 in map_option Inr
                      (sample_loop (int_of_float (fps vi * 5))
                         (total_frames - int_of_float (fps vi * 5)) interval []))))"

section \<open>Frame retrieval and scoring\<close>

text \<open>
  \<^verbatim>\<open>get_frame_at_position\<close> reads \<^verbatim>\<open>self.video_info.frame_count\<close> after checking only
  the capture, so a capture without metadata raises \<^verbatim>\<open>AttributeError\<close>.
\<close>

definition get_frame_at_position :: "'f video_analyzer \<Rightarrow> int \<Rightarrow> py_error + 'f option" where
  "get_frame_at_position a n =
     (case video_capture a of
        None \<Rightarrow> Inr None
      | Some cap \<Rightarrow>
          (case video_info a of
             None \<Rightarrow> Inl AttributeError
           | Some vi \<Rightarrow> Inr (if n < 0 \<or> frame_count vi \<le> n then None else cap n)))"

text \<open>
  The image-processing primitives of OpenCV and NumPy are parameters of the model:
  opening a capture on a path, the variance of the Laplacian at the pre-filter resolution
  and at the analysis resolution of a mode, the face score of the detector of a mode
  (\<^verbatim>\<open>calculate_face_score(frame, skip_eyes=fast_mode)\<close>), the frequency-domain blur
  estimate, the resize of \<^verbatim>\<open>_prepare_frame\<close> and the mean absolute grey difference of
  two images.
\<close>

record 'f cv2 =
  VideoCapture :: "string \<Rightarrow> 'f capture"
  laplacian_var_fast :: "'f \<Rightarrow> rat"
  laplacian_var :: "bool \<Rightarrow> 'f \<Rightarrow> rat"
  calculate_face_score :: "bool \<Rightarrow> 'f \<Rightarrow> rat"
  calculate_motion_blur :: "'f \<Rightarrow> rat"
  prepare_frame :: "bool \<Rightarrow> 'f \<Rightarrow> 'f"
  mean_abs_diff :: "'f \<Rightarrow> 'f \<Rightarrow> rat"

definition calculate_sharpness :: "'f cv2 \<Rightarrow> bool \<Rightarrow> 'f \<Rightarrow> rat" where
  "calculate_sharpness cv fast frame = min 1 (laplacian_var cv fast frame / 500)"

definition calculate_sharpness_fast :: "'f cv2 \<Rightarrow> 'f \<Rightarrow> rat" where
  "calculate_sharpness_fast cv frame = min 1 (laplacian_var_fast cv frame / 500)"

text \<open>
  \<^verbatim>\<open>calculate_frame_difference\<close> without a reference frame: it compares with the
  remembered frame and remembers the current one.
\<close>

definition calculate_frame_difference ::
  "'f cv2 \<Rightarrow> 'f frame_scorer \<Rightarrow> 'f \<Rightarrow> rat \<times> 'f frame_scorer" where
  "calculate_frame_difference cv s frame =
     (let small = prepare_frame cv (fast_mode s) frame
      in case previous_frame s of
           None \<Rightarrow> (0, s\<lparr>previous_frame := Some small\<rparr>)
         | Some reference_frame \<Rightarrow>
             (min 1 (mean_abs_diff cv small reference_frame / 50),
              s\<lparr>previous_frame := Some small\<rparr>))"

definition calculate_stability_score ::
  "'f cv2 \<Rightarrow> 'f frame_scorer \<Rightarrow> 'f \<Rightarrow> rat \<times> 'f frame_scorer" where
  "calculate_stability_score cv s frame =
     (let sharp = calculate_sharpness cv (fast_mode s) frame
      in if fast_mode s then (sharp, s)
         else
           (let motion_blur = calculate_motion_blur cv frame;
                (frame_diff, s') = calculate_frame_difference cv s frame
            in (sharp * (1 / 2) + (1 - motion_blur) * (3 / 10) + (1 - frame_diff) * (2 / 10),
                s')))"

definition score_frame :: "'f cv2 \<Rightarrow> 'f frame_scorer \<Rightarrow> 'f \<Rightarrow> scores \<times> 'f frame_scorer" where
  "score_frame cv s frame =
     (let face = calculate_face_score cv (fast_mode s) frame;
          sharp = calculate_sharpness cv (fast_mode s) frame;
          (stab, s') = (if fast_mode s then (sharp, s)
                        else calculate_stability_score cv s frame);
          total = face * face_weight s + sharp * sharpness_weight s + stab * stability_weight s
      in (\<lparr>face_score = face, sharpness = sharp, stability = stab, total_score = total\<rparr>, s'))"

section \<open>Serial analysis\<close>

text \<open>Entries of \<^verbatim>\<open>scored_frames\<close>: frame number, total score, score details, image.\<close>

type_synonym 'f scored = "int \<times> rat \<times> scores \<times> 'f"

text \<open>Phase 1: the pre-filter loop; \<open>candidates\<close> is the list built so far.\<close>

fun prefilter ::
  "'f cv2 \<Rightarrow> 'f video_analyzer \<Rightarrow> int list \<Rightarrow> (int \<times> 'f \<times> rat) list \<Rightarrow>
   py_error + (int \<times> 'f \<times> rat) list" where
  "prefilter cv a [] candidates = Inr candidates"
| "prefilter cv a (frame_num # rest) candidates =
     (case get_frame_at_position a frame_num of
        Inl e \<Rightarrow> Inl e
      | Inr None \<Rightarrow> prefilter cv a rest candidates
      | Inr (Some frame) \<Rightarrow>
          (let sharp = calculate_sharpness_fast cv frame
           in if sharp > 15 / 100
              then prefilter cv a rest (candidates @ [(frame_num, frame, sharp)])
              else prefilter cv a rest candidates))"

text \<open>Phase 2: full scoring, threading the scorer's state.\<close>

fun score_candidates ::
  "'f cv2 \<Rightarrow> 'f frame_scorer \<Rightarrow> (int \<times> 'f \<times> rat) list \<Rightarrow> 'f scored list \<Rightarrow> 'f scored list" where
  "score_candidates cv s [] scored_frames = scored_frames"
| "score_candidates cv s ((frame_num, frame, sharp) # rest) scored_frames =
     (let (sc, s') = score_frame cv s frame
      in score_candidates cv s' rest (scored_frames @ [(frame_num, total_score sc, sc, frame)]))"

text \<open>The inner loop of the interval check, with its \<^verbatim>\<open>break\<close>.\<close>

fun too_close :: "int \<Rightarrow> int \<Rightarrow> 'f scored list \<Rightarrow> bool" where
  "too_close frame_num min_frame_interval [] = False"
| "too_close frame_num min_frame_interval (sel # rest) =
     (if \<bar>frame_num - fst sel\<bar> < min_frame_interval then True
      else too_close frame_num min_frame_interval rest)"

text \<open>The greedy selection loop; \<open>selected\<close> is the list built so far.\<close>

fun select_frames :: "int \<Rightarrow> int \<Rightarrow> 'f scored list \<Rightarrow> 'f scored list \<Rightarrow> 'f scored list" where
  "select_frames num_frames min_frame_interval [] selected = selected"
| "select_frames num_frames min_frame_interval (c # rest) selected =
     (if int (length selected) \<ge> num_frames then selected
      else if \<not> too_close (fst c) min_frame_interval selected
      then select_frames num_frames min_frame_interval rest (selected @ [c])
      else select_frames num_frames min_frame_interval rest selected)"

text \<open>
  The conversion to \<^verbatim>\<open>SelectedFrame\<close> objects: \<^verbatim>\<open>frame_num / fps\<close> raises
  \<^verbatim>\<open>ZeroDivisionError\<close> for \<^verbatim>\<open>fps = 0\<close> as soon as there is a frame to convert.
\<close>

fun to_selected_frames ::
  "video_info \<Rightarrow> 'f scored list \<Rightarrow> 'f selected_frame list \<Rightarrow> py_error + 'f selected_frame list" where
  "to_selected_frames vi [] result = Inr result"
| "to_selected_frames vi ((frame_num, sc, details, frame) # rest) result =
     (if fps vi = 0 then Inl ZeroDivisionError
      else to_selected_frames vi rest
             (result @ [\<lparr>frame_number = frame_num,
                          timestamp = of_int frame_num / fps vi,
                          image = frame,
                          score = sc,
                          score_details = details,
                          is_manual = False\<rparr>]))"

text \<open>
  \<^verbatim>\<open>list.sort(key=..., reverse=True)\<close> is stable: it is the stable ascending sort on the
  negated key. \<^verbatim>\<open>frame_count // (num_frames * 2)\<close> raises for \<^verbatim>\<open>num_frames = 0\<close>.
\<close>

definition min_frame_interval_of :: "video_info \<Rightarrow> int \<Rightarrow> int" where
  "min_frame_interval_of vi num_frames =
     max (int_of_float (fps vi * 30)) (frame_count vi div (num_frames * 2))"

text \<open>
  \<^verbatim>\<open>analyze_video\<close> without a progress callback (the default). The result is \<open>None\<close> when
  the sampling loop does not return, \<open>Some (Inl e)\<close> when exception \<open>e\<close> is raised, and
  \<open>Some (Inr frames)\<close> when \<open>frames\<close> is returned.
\<close>

definition analyze_video ::
  "'f cv2 \<Rightarrow> 'f video_analyzer \<Rightarrow> int \<Rightarrow> (py_error + 'f selected_frame list) option" where
  "analyze_video cv a num_frames =
     (case video_capture a of
        None \<Rightarrow> Some (Inr [])
      | Some cap \<Rightarrow>
     (case video_info a of
        None \<Rightarrow> Some (Inr [])
      | Some vi \<Rightarrow>
          (let scorer = reset (frame_scorer a);
               (target_samples, min_interval_sec) = get_sampling_config a
           in case calculate_sample_positions a target_samples (of_int min_interval_sec) of
                None \<Rightarrow> None
              | Some (Inl e) \<Rightarrow> Some (Inl e)
              | Some (Inr sample_positions) \<Rightarrow>
                  Some
                    (case prefilter cv a sample_positions [] of
                       Inl e \<Rightarrow> Inl e
                     | Inr candidates \<Rightarrow>
                         (let scored_frames =
                                sort_key (\<lambda>x. - fst (snd x))
                                  (score_candidates cv scorer candidates [])
                          in if num_frames * 2 = 0 then Inl ZeroDivisionError
                             else
                               (let selected =
                                      select_frames num_frames
                                        (min_frame_interval_of vi num_frames) scored_frames []
                                in to_selected_frames vi (sort_key fst selected) []))))))"

section \<open>Parallel analysis\<close>

text \<open>The slice \<^verbatim>\<open>xs[i::w]\<close> for \<open>w \<ge> 1\<close>: the elements at the indices \<open>i, i + w, i + 2w, \<dots>\<close>\<close>

definition slice_step :: "nat \<Rightarrow> nat \<Rightarrow> 'a list \<Rightarrow> 'a list" where
  "slice_step i w xs = map (nth xs) (filter (\<lambda>k. (k - i) mod w = 0) [i..<length xs])"

text \<open>
  The loop of \<^verbatim>\<open>analyze_chunk\<close>: the worker seeks and reads on its own capture, without
  the range check of \<^verbatim>\<open>get_frame_at_position\<close>, and scores with its own scorer.
\<close>

fun chunk_loop ::
  "'f cv2 \<Rightarrow> 'f capture \<Rightarrow> 'f frame_scorer \<Rightarrow> int list \<Rightarrow> 'f scored list \<Rightarrow> 'f scored list" where
  "chunk_loop cv cap s [] chunk_results = chunk_results"
| "chunk_loop cv cap s (frame_num # rest) chunk_results =
     (case cap frame_num of
        None \<Rightarrow> chunk_loop cv cap s rest chunk_results
      | Some frame \<Rightarrow>
          (if calculate_sharpness_fast cv frame > 15 / 100
           then (let (sc, s') = score_frame cv s frame
                 in chunk_loop cv cap s' rest
                      (chunk_results @ [(frame_num, total_score sc, sc, frame)]))
           else chunk_loop cv cap s rest chunk_results))"

text \<open>
  A worker opens the capture on \<^verbatim>\<open>self.video_path\<close> and builds
  \<^verbatim>\<open>FrameScorer(fast_mode=True)\<close> with the default weights 0.5, 0.3 and 0.2. Opening a
  capture on \<^verbatim>\<open>None\<close> is rejected by OpenCV; \<^verbatim>\<open>load_video\<close> and \<^verbatim>\<open>close\<close> set
  the path and the metadata together, so that state is not reached through them.
\<close>

definition analyze_chunk ::
  "'f cv2 \<Rightarrow> int list \<Rightarrow> string option \<Rightarrow> py_error + 'f scored list" where
  "analyze_chunk cv positions path_opt =
     (case path_opt of
        None \<Rightarrow> Inl TypeError
      | Some p \<Rightarrow>
          (case FrameScorer_init (1 / 2) (3 / 10) (2 / 10) True of
             Inl e \<Rightarrow> Inl e
           | Inr s \<Rightarrow> Inr (chunk_loop cv (VideoCapture cv p) s positions [])))"

text \<open>
  \<^verbatim>\<open>results.extend(future.result())\<close> over the futures in the order in which they
  complete; a worker's exception is raised again by \<^verbatim>\<open>result()\<close>.
\<close>

fun extend_results :: "(py_error + 'a list) list \<Rightarrow> 'a list \<Rightarrow> py_error + 'a list" where
  "extend_results [] results = Inr results"
| "extend_results (r # rest) results =
     (case r of Inl e \<Rightarrow> Inl e | Inr xs \<Rightarrow> extend_results rest (results @ xs))"

text \<open>The interval check of the parallel path, written with \<^verbatim>\<open>any\<close>.\<close>

definition too_close_any :: "int \<Rightarrow> int \<Rightarrow> 'f scored list \<Rightarrow> bool" where
  "too_close_any frame_num min_frame_interval selected =
     list_ex (\<lambda>sel. \<bar>frame_num - fst sel\<bar> < min_frame_interval) selected"

fun select_frames_parallel ::
  "int \<Rightarrow> int \<Rightarrow> 'f scored list \<Rightarrow> 'f scored list \<Rightarrow> 'f scored list" where
  "select_frames_parallel num_frames min_frame_interval [] selected = selected"
| "select_frames_parallel num_frames min_frame_interval (c # rest) selected =
     (if int (length selected) \<ge> num_frames then selected
      else if \<not> too_close_any (fst c) min_frame_interval selected
      then select_frames_parallel num_frames min_frame_interval rest (selected @ [c])
      else select_frames_parallel num_frames min_frame_interval rest selected)"

text \<open>
  \<^verbatim>\<open>analyze_video_parallel\<close> without a progress callback. The order in which the
  workers complete is not determined by the program: \<open>as_completed\<close> is any rearrangement
  of the list of futures. \<^verbatim>\<open>ThreadPoolExecutor\<close> raises \<^verbatim>\<open>ValueError\<close> unless
  \<^verbatim>\<open>max_workers\<close> is positive.
\<close>

definition analyze_video_parallel ::
  "'f cv2 \<Rightarrow> ((py_error + 'f scored list) list \<Rightarrow> (py_error + 'f scored list) list) \<Rightarrow>
   'f video_analyzer \<Rightarrow> int \<Rightarrow> int \<Rightarrow> (py_error + 'f selected_frame list) option" where
  "analyze_video_parallel cv as_completed a num_frames num_workers =
     (case video_info a of
        None \<Rightarrow> Some (Inr [])
      | Some vi \<Rightarrow>
          (let (target_samples, min_interval_sec) = get_sampling_config a
           in case calculate_sample_positions a target_samples (of_int min_interval_sec) of
                None \<Rightarrow> None
              | Some (Inl e) \<Rightarrow> Some (Inl e)
              | Some (Inr sample_positions) \<Rightarrow>
                  Some
                    (let chunks = map (\<lambda>i. slice_step i (nat num_workers) sample_positions)
                                    [0..<nat num_workers]
                     in if num_workers \<le> 0 then Inl ValueError
                        else
                          (let futures = map (\<lambda>chunk. analyze_chunk cv chunk (video_path a))
                                           (filter (\<lambda>chunk. chunk \<noteq> []) chunks)
                           in case extend_results (as_completed futures) [] of
                                Inl e \<Rightarrow> Inl e
                              | Inr results \<Rightarrow>
                                  (let sorted_results = sort_key (\<lambda>x. - fst (snd x)) results
                                   in if num_frames * 2 = 0 then Inl ZeroDivisionError
                                      else
                                        (let selected =
                                               select_frames_parallel num_frames
                                                 (min_frame_interval_of vi num_frames)
                                                 sorted_results []
                                         in to_selected_frames vi (sort_key fst selected) []))))))"

section \<open>Face detection (face_detector.py)\<close>









section \<open>Timestamps\<close>








section \<open>Notions used to compare the two paths\<close>

text \<open>
  What one sampled position contributes to the scored list when frames are read from
  \<open>cap\<close> and scored by a scorer in state \<open>s\<close>: nothing when the read fails or the frame
  does not pass the pre-filter, and one entry otherwise.
\<close>

definition scored_entry :: "'f cv2 \<Rightarrow> 'f frame_scorer \<Rightarrow> 'f capture \<Rightarrow> int \<Rightarrow> 'f scored list" where
  "scored_entry cv s cap n =
     (case cap n of
        None \<Rightarrow> []
      | Some f \<Rightarrow>
          if calculate_sharpness_fast cv f > 15 / 100
          then [(n, total_score (fst (score_frame cv s f)), fst (score_frame cv s f), f)]
          else [])"

section \<open>Example inputs\<close>

text \<open>
  Concrete inputs on which the results below are evaluated. Decoded images are
  represented by natural numbers.
\<close>

definition demo_info :: "rat \<Rightarrow> int \<Rightarrow> rat \<Rightarrow> video_info" where
  "demo_info f n d =
     \<lparr>path = ''talk.mp4'', width = 1920, height = 1080, fps = f, frame_count = n,
      duration = d, codec = ''avc1''\<rparr>"

definition default_scorer :: "nat frame_scorer" where
  "default_scorer =
     \<lparr>face_weight = 1 / 2, sharpness_weight = 3 / 10, stability_weight = 2 / 10,
      fast_mode = True, previous_frame = None\<rparr>"

definition demo_capture :: "nat capture" where
  "demo_capture n = (if 0 \<le> n then Some (nat n) else None)"

definition demo_analyzer :: "video_info \<Rightarrow> nat video_analyzer" where
  "demo_analyzer vi =
     \<lparr>video_path = Some ''talk.mp4'', video_capture = Some demo_capture,
      video_info = Some vi, frame_scorer = default_scorer\<rparr>"

text \<open>
  A recording of 50 frames at one frame per second in which only the frames 7, 9 and 41
  pass the sharpness pre-filter; frame 7 shows a large face.
\<close>

definition demo_cv :: "nat cv2" where
  "demo_cv =
     \<lparr>VideoCapture = (\<lambda>p. demo_capture),
      laplacian_var_fast = (\<lambda>f. if f = 7 \<or> f = 9 \<or> f = 41 then 400 else 10),
      laplacian_var = (\<lambda>fast f. of_nat f * 10),
      calculate_face_score = (\<lambda>fast f. if f = 7 then 9 / 10 else 1 / 10),
      calculate_motion_blur = (\<lambda>f. 0),
      prepare_frame = (\<lambda>fast f. f),
      mean_abs_diff = (\<lambda>f g. 0)\<rparr>"

definition demo_video :: video_info where
  "demo_video = demo_info 1 50 50"

text \<open>The same recording when no frame passes the pre-filter.\<close>

definition blurry_cv :: "nat cv2" where
  "blurry_cv = demo_cv\<lparr>laplacian_var_fast := (\<lambda>f. 10)\<rparr>"

text \<open>What \<^verbatim>\<open>analyze_video\<close> returns on that recording for three requested frames.\<close>

definition demo_selected :: "nat selected_frame list" where
  "demo_selected =
     [\<lparr>frame_number = 7, timestamp = 7, image = 7, score = 13 / 25,
       score_details = \<lparr>face_score = 9 / 10, sharpness = 7 / 50,
          stability = 7 / 50, total_score = 13 / 25\<rparr>, is_manual = False\<rparr>,
      \<lparr>frame_number = 41, timestamp = 41, image = 41, score = 23 / 50,
       score_details = \<lparr>face_score = 1 / 10, sharpness = 41 / 50,
          stability = 41 / 50, total_score = 23 / 50\<rparr>, is_manual = False\<rparr>]"

text \<open>A slide show: 60 frames at 0.25 frames per second, 240 seconds.\<close>

definition slow_video :: video_info where
  "slow_video = demo_info (1 / 4) 60 240"

text \<open>
  The analyzer of the example recording after \<^verbatim>\<open>set_weights(0.1, 0.5, 0.4)\<close>.
\<close>

definition broll_analyzer :: "nat video_analyzer" where
  "broll_analyzer =
     (demo_analyzer demo_video)
       \<lparr>frame_scorer := \<lparr>face_weight = 1 / 10, sharpness_weight = 1 / 2,
                          stability_weight = 2 / 5, fast_mode = True,
                          previous_frame = None\<rparr>\<rparr>"

text \<open>A recording of 3000 frames at 29.97 frames per second.\<close>

definition ntsc_video :: video_info where
  "ntsc_video = demo_info (2997 / 100) 3000 (300000 / 2997)"

section \<open>Sampling configuration: properties\<close>

lemma sampling_lookup_first:
  "\<exists>e \<in> set tbl. duration_le d (fst e) \<Longrightarrow>
   \<exists>pre max_d post.
      tbl = pre @ (max_d, sampling_lookup d tbl) # post \<and>
      duration_le d max_d \<and>
      (\<forall>e \<in> set pre. \<not> duration_le d (fst e))"
proof (induction tbl)
  case Nil
  then show ?case by simp
next
  case (Cons e tbl)
  obtain b cfg where e: "e = (b, cfg)" by (cases e)
  show ?case
  proof (cases "duration_le d b")
    case True
    then have "e # tbl = [] @ (b, sampling_lookup d (e # tbl)) # tbl"
      by (simp add: e)
    with True show ?thesis by fastforce
  next
    case False
    with Cons.prems e have "\<exists>e \<in> set tbl. duration_le d (fst e)" by auto
    from Cons.IH [OF this] obtain pre max_d post where
      split: "tbl = pre @ (max_d, sampling_lookup d tbl) # post"
      and le: "duration_le d max_d"
      and first: "\<forall>e \<in> set pre. \<not> duration_le d (fst e)"
      by blast
    from split False e
    have "e # tbl = (e # pre) @ (max_d, sampling_lookup d (e # tbl)) # post"
      by simp
    moreover from first False e have "\<forall>x \<in> set (e # pre). \<not> duration_le d (fst x)"
      by simp
    ultimately show ?thesis using le by blast
  qed
qed

text \<open>
  C5. The duration-tier lookup returns the configuration of the first entry of
  \<^verbatim>\<open>SAMPLING_CONFIG\<close> whose upper bound is at least the duration of the loaded video:
  the table splits into entries whose bound is below the duration, the winning entry,
  and the rest. A duration of 200 s gives (500, 2), 10000 s gives (250, 30) and
  20000 s gives (200, 60).
\<close>

theorem get_sampling_config_first_bound:
  fixes a :: "'f video_analyzer"
  assumes "video_info a = Some vi"
  shows "(\<exists>pre max_d post.
            SAMPLING_CONFIG = pre @ (max_d, get_sampling_config a) # post \<and>
            duration_le (duration vi) max_d \<and>
            (\<forall>e \<in> set pre. \<not> duration_le (duration vi) (fst e))) \<and>
         (duration vi = 200 \<longrightarrow> get_sampling_config a = (500, 2)) \<and>
         (duration vi = 10000 \<longrightarrow> get_sampling_config a = (250, 30)) \<and>
         (duration vi = 20000 \<longrightarrow> get_sampling_config a = (200, 60))"
proof -
  have "\<exists>e \<in> set SAMPLING_CONFIG. duration_le (duration vi) (fst e)"
    by (simp add: SAMPLING_CONFIG_def)
  from sampling_lookup_first [OF this] assms
  have "\<exists>pre max_d post.
           SAMPLING_CONFIG = pre @ (max_d, get_sampling_config a) # post \<and>
           duration_le (duration vi) max_d \<and>
           (\<forall>e \<in> set pre. \<not> duration_le (duration vi) (fst e))"
    by (simp add: get_sampling_config_def)
  moreover have "duration vi = 200 \<longrightarrow> get_sampling_config a = (500, 2)"
    using assms by (simp add: get_sampling_config_def SAMPLING_CONFIG_def)
  moreover have "duration vi = 10000 \<longrightarrow> get_sampling_config a = (250, 30)"
    using assms by (simp add: get_sampling_config_def SAMPLING_CONFIG_def)
  moreover have "duration vi = 20000 \<longrightarrow> get_sampling_config a = (200, 60)"
    using assms by (simp add: get_sampling_config_def SAMPLING_CONFIG_def)
  ultimately show ?thesis by blast
qed

theorem get_sampling_config_first_bound_witness:
  "video_info (demo_analyzer (demo_info 25 250000 10000)) = Some (demo_info 25 250000 10000) \<and>
   duration (demo_info 25 250000 10000) = 10000 \<and>
   get_sampling_config (demo_analyzer (demo_info 25 250000 10000)) = (250, 30) \<and>
   (\<exists>pre max_d post.
      SAMPLING_CONFIG = pre @ (max_d, 250, 30) # post \<and>
      duration_le 10000 max_d \<and>
      (\<forall>e \<in> set pre. \<not> duration_le 10000 (fst e)))"
proof -
  have loaded: "video_info (demo_analyzer (demo_info 25 250000 10000))
                  = Some (demo_info 25 250000 10000)"
    by (simp add: demo_analyzer_def)
  have d: "duration (demo_info 25 250000 10000) = 10000"
    by (simp add: demo_info_def)
  note fb = get_sampling_config_first_bound [OF loaded]
  from fb d have cfg: "get_sampling_config (demo_analyzer (demo_info 25 250000 10000)) = (250, 30)"
    by blast
  from fb have "\<exists>pre max_d post.
      SAMPLING_CONFIG = pre @ (max_d, 250, 30) # post \<and>
      duration_le 10000 max_d \<and>
      (\<forall>e \<in> set pre. \<not> duration_le 10000 (fst e))"
    unfolding cfg d by blast
  with loaded d cfg show ?thesis by blast
qed

section \<open>Frame scorer weights: properties\<close>



section \<open>Sampling positions: properties\<close>

lemma sample_loop_closed:
  "1 \<le> interval \<Longrightarrow>
   \<exists>n. sample_loop pos stop interval acc
         = Some (acc @ map (\<lambda>k. pos + int k * interval) [0..<n]) \<and>
       (\<forall>k<n. pos + int k * interval < stop) \<and> stop \<le> pos + int n * interval"
proof (induction "nat (stop - pos)" arbitrary: pos acc rule: less_induct)
  case less
  show ?case
  proof (cases "pos < stop")
    case False
    then have "sample_loop pos stop interval acc = Some acc"
      by (subst sample_loop.simps) simp
    with False show ?thesis by (intro exI [of _ 0]) simp
  next
    case True
    with less.prems have "nat (stop - (pos + interval)) < nat (stop - pos)" by linarith
    from less.hyps [OF this less.prems, of "acc @ [pos]"]
    obtain n where
      run: "sample_loop (pos + interval) stop interval (acc @ [pos])
              = Some ((acc @ [pos]) @ map (\<lambda>k. pos + interval + int k * interval) [0..<n])"
      and below: "\<forall>k<n. pos + interval + int k * interval < stop"
      and reach: "stop \<le> pos + interval + int n * interval"
      by blast
    have "sample_loop pos stop interval acc
            = sample_loop (pos + interval) stop interval (acc @ [pos])"
      using True by (subst sample_loop.simps) simp
    also have "\<dots> = Some (acc @ map (\<lambda>k. pos + int k * interval) [0..<Suc n])"
      unfolding run by (simp add: map_upt_Suc algebra_simps del: upt_Suc)
    finally have 1: "sample_loop pos stop interval acc
            = Some (acc @ map (\<lambda>k. pos + int k * interval) [0..<Suc n])" .
    have 2: "\<forall>k<Suc n. pos + int k * interval < stop"
    proof (intro allI impI)
      fix k assume "k < Suc n"
      show "pos + int k * interval < stop"
      proof (cases k)
        case 0 with True show ?thesis by simp
      next
        case (Suc j)
        with \<open>k < Suc n\<close> below have "pos + interval + int j * interval < stop" by simp
        with Suc show ?thesis by (simp add: algebra_simps)
      qed
    qed
    have 3: "stop \<le> pos + int (Suc n) * interval"
      using reach by (simp add: algebra_simps)
    from 1 2 3 show ?thesis by blast
  qed
qed

lemma sample_loop_Some_imp:
  assumes "sample_loop pos stop interval acc = Some ps"
  shows "interval \<le> 0 \<longrightarrow> stop \<le> pos"
proof (rule sample_loop.raw_induct
         [where P = "\<lambda>pos stop interval acc ps. interval \<le> 0 \<longrightarrow> stop \<le> pos", OF _ assms])
  fix f pos stop interval acc ps
  assume IH: "\<And>pos stop interval acc ps.
                 f pos stop interval acc = Some ps \<Longrightarrow> interval \<le> 0 \<longrightarrow> stop \<le> pos"
    and body: "(if pos < stop then f (pos + interval) stop interval (acc @ [pos])
                else Some acc) = Some (ps :: int list)"
  show "interval \<le> 0 \<longrightarrow> stop \<le> pos"
  proof (cases "pos < stop")
    case True
    with body have "f (pos + interval) stop interval (acc @ [pos]) = Some ps" by simp
    from IH [OF this] True show ?thesis by linarith
  next
    case False
    then show ?thesis by simp
  qed
qed

lemma sample_loop_diverges:
  "interval \<le> 0 \<Longrightarrow> pos < stop \<Longrightarrow> sample_loop pos stop interval acc = None"
  using sample_loop_Some_imp [of pos stop interval acc] by (cases "sample_loop pos stop interval acc") force+

lemma floor_rat_numeral: "\<lfloor>(numeral a :: rat) / numeral b\<rfloor> = numeral a div numeral b"
  using floor_divide_of_int_eq [of "numeral a" "numeral b", where ?'a = rat] by simp

lemma ceiling_rat_neg_numeral:
  "\<lceil>- ((numeral a :: rat) / numeral b)\<rceil> = - (numeral a div numeral b)"
  by (simp add: ceiling_def floor_rat_numeral)

lemma calculate_sample_positions_loop:
  assumes "video_info a = Some vi" and "num_samples \<noteq> 0"
  shows "calculate_sample_positions a num_samples min_interval_sec =
           map_option Inr
             (sample_loop (int_of_float (fps vi * 5))
                (frame_count vi - int_of_float (fps vi * 5))
                (max (int_of_float (min_interval_sec * fps vi)) (frame_count vi div num_samples))
                [])"
  using assms by (simp add: calculate_sample_positions_def Let_def)

text \<open>
  C10. When the step \<^verbatim>\<open>max(int(min_interval_sec * fps), frame_count // target_samples)\<close>
  is at least 1 (the division being defined, that is \<^verbatim>\<open>target_samples\<close> not zero), the
  sampling loop returns: the result is the finite list of the positions
  \<open>start + k * step\<close> for \<open>k < n\<close>, where \<open>start\<close> is 5 seconds of frames, every listed
  position is below \<open>frame_count - start\<close>, and the next position \<open>start + n * step\<close> has
  reached that bound.
\<close>

theorem sample_positions_terminate:
  fixes a :: "'f video_analyzer"
  assumes "video_info a = Some vi" and "num_samples \<noteq> 0"
    and "interval = max (int_of_float (min_interval_sec * fps vi)) (frame_count vi div num_samples)"
    and "1 \<le> interval"
  shows "\<exists>n. calculate_sample_positions a num_samples min_interval_sec
                = Some (Inr (map (\<lambda>k. int_of_float (fps vi * 5) + int k * interval) [0..<n])) \<and>
             (\<forall>k<n. int_of_float (fps vi * 5) + int k * interval
                       < frame_count vi - int_of_float (fps vi * 5)) \<and>
             frame_count vi - int_of_float (fps vi * 5)
               \<le> int_of_float (fps vi * 5) + int n * interval"
proof -
  from sample_loop_closed [OF assms(4), of "int_of_float (fps vi * 5)"
        "frame_count vi - int_of_float (fps vi * 5)" "[]"]
  obtain n where
    "sample_loop (int_of_float (fps vi * 5)) (frame_count vi - int_of_float (fps vi * 5)) interval []
       = Some (map (\<lambda>k. int_of_float (fps vi * 5) + int k * interval) [0..<n])"
    and "\<forall>k<n. int_of_float (fps vi * 5) + int k * interval
                       < frame_count vi - int_of_float (fps vi * 5)"
    and "frame_count vi - int_of_float (fps vi * 5)
               \<le> int_of_float (fps vi * 5) + int n * interval"
    by auto
  then show ?thesis
    unfolding calculate_sample_positions_loop [OF assms(1,2)] assms(3) [symmetric]
    by (intro exI [of _ n]) simp
qed

theorem sample_positions_terminate_witness:
  "calculate_sample_positions (demo_analyzer (demo_info 1 100 100)) 10 2
     = Some (Inr [5, 15, 25, 35, 45, 55, 65, 75, 85])"
proof -
  let ?vi = "demo_info 1 100 100"
  have info: "video_info (demo_analyzer ?vi) = Some ?vi"
    by (simp add: demo_analyzer_def)
  have start: "int_of_float (fps ?vi * 5) = 5"
    by (simp add: demo_info_def int_of_float_def)
  have interval: "10 = max (int_of_float (2 * fps ?vi)) (frame_count ?vi div 10)"
    by (simp add: demo_info_def int_of_float_def)
  have count: "frame_count ?vi = 100"
    by (simp add: demo_info_def)
  from sample_positions_terminate [OF info _ interval, unfolded start count]
  obtain n where
    run: "calculate_sample_positions (demo_analyzer ?vi) 10 2
            = Some (Inr (map (\<lambda>k. 5 + int k * 10) [0..<n]))"
    and below: "\<forall>k<n. 5 + int k * 10 < (100 - 5 :: int)"
    and reach: "(100 - 5 :: int) \<le> 5 + int n * 10"
    by auto
  from reach have "9 \<le> n" by simp
  moreover have "n \<le> 9"
  proof (rule ccontr)
    assume "\<not> n \<le> 9"
    then have "9 < n" by simp
    with below have "5 + int 9 * 10 < (100 - 5 :: int)" by blast
    then show False by simp
  qed
  ultimately have "n = 9" by simp
  have "[0..<9] = [0, 1, 2, 3, 4, 5, 6, 7, 8]" by code_simp
  with run \<open>n = 9\<close> show ?thesis by simp
qed

lemma arith_seq_sorted:
  "1 \<le> (d :: int) \<Longrightarrow> sorted_wrt (<) (map (\<lambda>k. s + int k * d) [0..<n])"
  by (auto simp: sorted_wrt_map sorted_wrt_iff_nth_less intro!: mult_strict_right_mono)

text \<open>
  C3 (amended). When \<^verbatim>\<open>target_samples\<close> is not zero and either the step is at least 1 or
  the video is too short to sample (\<open>stop \<le> start\<close>), the planner returns a sequence that
  starts at \<open>start = int(fps * 5)\<close> if it is not empty, advances by
  \<open>step = max(int(min_interval_sec * fps), frame_count // target_samples)\<close>, contains only
  positions below \<open>stop = frame_count - int(fps * 5)\<close>, ends with the last such position, is
  strictly ascending, is empty exactly when \<open>stop \<le> start\<close>, and is the same for every
  analyzer whose video has the same frame rate and frame count.
\<close>

theorem sample_positions_sequence:
  fixes a :: "'f video_analyzer"
  assumes "video_info a = Some vi" and "num_samples \<noteq> 0"
    and "start = int_of_float (fps vi * 5)"
    and "stop = frame_count vi - int_of_float (fps vi * 5)"
    and "step = max (int_of_float (min_interval_sec * fps vi)) (frame_count vi div num_samples)"
    and "1 \<le> step \<or> stop \<le> start"
  shows "\<exists>ps. calculate_sample_positions a num_samples min_interval_sec = Some (Inr ps) \<and>
            (ps \<noteq> [] \<longrightarrow> hd ps = start \<and> stop \<le> last ps + step) \<and>
            (ps = [] \<longleftrightarrow> stop \<le> start) \<and>
            (\<forall>i. Suc i < length ps \<longrightarrow> ps ! Suc i = ps ! i + step) \<and>
            (\<forall>p \<in> set ps. p < stop) \<and>
            sorted_wrt (<) ps \<and>
            (\<forall>(b :: 'f video_analyzer) vi'.
                video_info b = Some vi' \<and> fps vi' = fps vi \<and> frame_count vi' = frame_count vi \<longrightarrow>
                calculate_sample_positions b num_samples min_interval_sec = Some (Inr ps))"
proof -
  have loop: "calculate_sample_positions b num_samples min_interval_sec
                = map_option Inr (sample_loop start stop step [])"
    if "video_info b = Some vi'" "fps vi' = fps vi" "frame_count vi' = frame_count vi"
    for b :: "'f video_analyzer" and vi'
    using that assms(2-5) by (simp add: calculate_sample_positions_loop)
  show ?thesis
  proof (cases "stop \<le> start")
    case True
    then have "sample_loop start stop step [] = Some []"
      by (subst sample_loop.simps) simp
    with True loop [OF assms(1)] loop show ?thesis by auto
  next
    case False
    with assms(6) have step: "1 \<le> step" by simp
    from sample_loop_closed [OF this, of start stop "[]"] obtain n where
      run: "sample_loop start stop step [] = Some (map (\<lambda>k. start + int k * step) [0..<n])"
      and below: "\<forall>k<n. start + int k * step < stop"
      and reach: "stop \<le> start + int n * step"
      by auto
    let ?ps = "map (\<lambda>k. start + int k * step) [0..<n]"
    from False reach have n: "0 < n" by (cases n) auto
    have 1: "calculate_sample_positions a num_samples min_interval_sec = Some (Inr ?ps)"
      using loop [OF assms(1)] run by simp
    have 2: "?ps \<noteq> [] \<longrightarrow> hd ?ps = start \<and> stop \<le> last ?ps + step"
    proof -
      from n have "hd ?ps = start" by (simp add: hd_map hd_upt)
      moreover from n have "last ?ps = start + int (n - 1) * step"
        by (simp add: last_map last_upt)
      moreover from n have "int (n - 1) * step + step = int n * step"
        by (cases n) (simp_all add: algebra_simps)
      ultimately show ?thesis using reach by (simp add: algebra_simps)
    qed
    have 3: "?ps = [] \<longleftrightarrow> stop \<le> start" using n False by simp
    have 4: "\<forall>i. Suc i < length ?ps \<longrightarrow> ?ps ! Suc i = ?ps ! i + step"
      by (simp add: algebra_simps)
    have 5: "\<forall>p \<in> set ?ps. p < stop" using below by auto
    have 6: "sorted_wrt (<) ?ps" by (rule arith_seq_sorted [OF step])
    have 7: "\<forall>(b :: 'f video_analyzer) vi'.
                video_info b = Some vi' \<and> fps vi' = fps vi \<and> frame_count vi' = frame_count vi \<longrightarrow>
                calculate_sample_positions b num_samples min_interval_sec = Some (Inr ?ps)"
      using loop run by auto
    from 1 2 3 4 5 6 7 show ?thesis by blast
  qed
qed

theorem sample_positions_sequence_witness:
  "\<exists>ps. calculate_sample_positions (demo_analyzer (demo_info 25 250000 10000)) 250 30
           = Some (Inr ps) \<and>
        hd ps = 125 \<and> (249875 :: int) \<le> last ps + 1000 \<and> ps \<noteq> [] \<and>
        (\<forall>i. Suc i < length ps \<longrightarrow> ps ! Suc i = ps ! i + 1000) \<and>
        (\<forall>p \<in> set ps. p < 249875) \<and> sorted_wrt (<) ps"
proof -
  let ?vi = "demo_info 25 250000 10000"
  have info: "video_info (demo_analyzer ?vi) = Some ?vi"
    by (simp add: demo_analyzer_def)
  have start: "125 = int_of_float (fps ?vi * 5)"
    by (simp add: demo_info_def int_of_float_def)
  have stop: "249875 = frame_count ?vi - int_of_float (fps ?vi * 5)"
    by (simp add: demo_info_def int_of_float_def)
  have step: "1000 = max (int_of_float (30 * fps ?vi)) (frame_count ?vi div 250)"
    by (simp add: demo_info_def int_of_float_def)
  from sample_positions_sequence [OF info _ start stop step]
  show ?thesis by simp blast
qed

lemma slow_video_sampling_diverges:
  "calculate_sample_positions (demo_analyzer slow_video) 500 2 = None"
proof -
  have start: "int_of_float (5 / 4) = 1" by code_simp
  have step: "int_of_float (1 / 2) = 0" by code_simp
  have "sample_loop 1 59 0 [] = None"
    by (rule sample_loop_diverges) simp_all
  then show ?thesis
    by (simp add: calculate_sample_positions_def demo_analyzer_def slow_video_def
        demo_info_def Let_def start step)
qed

text \<open>
  C3 as stated fails. For the slide show of 60 frames at 0.25 frames per second, with the
  configuration (500, 2) of its duration, the step is 0, the start 1 is below the stop 59,
  and the planner returns no sequence at all. And where it returns, start and step are
  whole frames: at 29.97 frames per second the sequence begins 149, 208, while 5 seconds
  are 149.85 frames and the step of the stated formula is 59.94.
\<close>

theorem planner_diverges_or_truncates:
  "calculate_sample_positions (demo_analyzer slow_video) 500 2 = None \<and>
   get_sampling_config (demo_analyzer ntsc_video) = (500, 2) \<and>
   map_option (map_sum id (take 2)) (calculate_sample_positions (demo_analyzer ntsc_video) 500 2)
     = Some (Inr [149, 208]) \<and>
   5 * fps ntsc_video = 2997 / 20 \<and>
   max (2 * fps ntsc_video) (of_int (frame_count ntsc_video) / 500) = 2997 / 50"
proof -
  have cfg: "get_sampling_config (demo_analyzer ntsc_video) = (500, 2)"
    by (simp add: get_sampling_config_def demo_analyzer_def ntsc_video_def demo_info_def
        SAMPLING_CONFIG_def)
  have start: "int_of_float (2997 / 20) = 149" by code_simp
  have step: "int_of_float (2997 / 50) = 59" by code_simp
  have info: "video_info (demo_analyzer ntsc_video) = Some ntsc_video"
    by (simp add: demo_analyzer_def)
  have "calculate_sample_positions (demo_analyzer ntsc_video) 500 2
          = map_option Inr (sample_loop 149 2851 59 [])"
    unfolding calculate_sample_positions_loop [OF info, of 500 2, simplified]
    by (simp add: ntsc_video_def demo_info_def start step)
  moreover from sample_loop_closed [of 59 149 2851 "[]"] obtain n where
    run: "sample_loop 149 2851 59 [] = Some (map (\<lambda>k. 149 + int k * 59) [0..<n])"
    and reach: "2851 \<le> 149 + int n * 59"
    by auto
  moreover from reach have "2 \<le> n" by simp
  then have "take 2 (map (\<lambda>k. 149 + int k * 59) [0..<n]) = [149, 208]"
    by (simp add: take_map)
  ultimately have "map_option (map_sum id (take 2))
      (calculate_sample_positions (demo_analyzer ntsc_video) 500 2) = Some (Inr [149, 208])"
    by simp
  moreover have "5 * fps ntsc_video = 2997 / 20"
    "max (2 * fps ntsc_video) (of_int (frame_count ntsc_video) / 500) = 2997 / 50"
    by (simp_all add: ntsc_video_def demo_info_def)
  ultimately show ?thesis using slow_video_sampling_diverges cfg by blast
qed

section \<open>Serial analysis: properties\<close>

lemma get_frame_loaded:
  "video_capture a = Some cap \<Longrightarrow> video_info a = Some vi \<Longrightarrow>
   get_frame_at_position a n = Inr (if n < 0 \<or> frame_count vi \<le> n then None else cap n)"
  by (simp add: get_frame_at_position_def)

lemma prefilter_loaded:
  assumes "video_capture a = Some cap" and "video_info a = Some vi"
  shows "\<exists>cands. prefilter cv a ps acc = Inr cands"
proof (induction ps arbitrary: acc)
  case Nil
  show ?case by simp
next
  case (Cons p ps)
  from Cons.IH [of acc]
       Cons.IH [of "acc @ [(p, the (cap p), calculate_sharpness_fast cv (the (cap p)))]"]
  show ?case
    by (auto simp: get_frame_loaded [OF assms] Let_def split: option.splits)
qed

lemma prefilter_survivors:
  "prefilter cv a ps acc = Inr cands \<Longrightarrow> c \<in> set cands \<Longrightarrow>
   c \<in> set acc \<or>
   (fst c \<in> set ps \<and> get_frame_at_position a (fst c) = Inr (Some (fst (snd c))) \<and>
    15 / 100 < calculate_sharpness_fast cv (fst (snd c)))"
proof (induction ps arbitrary: acc)
  case Nil
  then show ?case by simp
next
  case (Cons p ps)
  show ?case
  proof (cases "get_frame_at_position a p")
    case (Inl e)
    with Cons.prems show ?thesis by simp
  next
    case (Inr r)
    show ?thesis
    proof (cases r)
      case None
      with Inr Cons.prems have "prefilter cv a ps acc = Inr cands" by simp
      from Cons.IH [OF this Cons.prems(2)] show ?thesis by auto
    next
      case (Some f)
      show ?thesis
      proof (cases "15 / 100 < calculate_sharpness_fast cv f")
        case True
        with Inr Some Cons.prems
        have "prefilter cv a ps (acc @ [(p, f, calculate_sharpness_fast cv f)]) = Inr cands"
          by (simp add: Let_def)
        from Cons.IH [OF this Cons.prems(2)] Inr Some True show ?thesis by auto
      next
        case False
        with Inr Some Cons.prems have "prefilter cv a ps acc = Inr cands"
          by (simp add: Let_def)
        from Cons.IH [OF this Cons.prems(2)] show ?thesis by auto
      qed
    qed
  qed
qed

lemma score_candidates_frames:
  "map (\<lambda>x. (fst x, snd (snd (snd x)))) (score_candidates cv s cs acc)
     = map (\<lambda>x. (fst x, snd (snd (snd x)))) acc @ map (\<lambda>c. (fst c, fst (snd c))) cs"
  by (induction cs arbitrary: s acc) (auto split: prod.splits)

lemma too_close_iff:
  "too_close n mi sel \<longleftrightarrow> (\<exists>s \<in> set sel. \<bar>n - fst s\<bar> < mi)"
  by (induction sel) auto

lemma select_frames_subset:
  "set (select_frames n mi cs sel) \<subseteq> set sel \<union> set cs"
proof (induction cs arbitrary: sel)
  case Nil
  show ?case by simp
next
  case (Cons c cs)
  from Cons.IH [of sel] Cons.IH [of "sel @ [c]"] show ?case by auto
qed




lemma to_selected_frames_eq:
  "to_selected_frames vi xs acc =
     (if fps vi = 0 \<and> xs \<noteq> [] then Inl ZeroDivisionError
      else Inr (acc @ map (\<lambda>x. \<lparr>frame_number = fst x,
                                 timestamp = of_int (fst x) / fps vi,
                                 image = snd (snd (snd x)),
                                 score = fst (snd x),
                                 score_details = fst (snd (snd x)),
                                 is_manual = False\<rparr>) xs))"
  by (induction vi xs acc rule: to_selected_frames.induct) auto

lemma analyze_video_unloaded:
  "video_capture a = None \<or> video_info a = None \<Longrightarrow> analyze_video cv a n = Some (Inr [])"
  by (auto simp: analyze_video_def split: option.splits)

lemma analyze_video_loaded:
  assumes "video_capture a = Some cap" and "video_info a = Some vi"
  shows "analyze_video cv a n =
           (case calculate_sample_positions a (fst (get_sampling_config a))
                   (of_int (snd (get_sampling_config a))) of
              None \<Rightarrow> None
            | Some (Inl e) \<Rightarrow> Some (Inl e)
            | Some (Inr ps) \<Rightarrow>
                Some (case prefilter cv a ps [] of
                        Inl e \<Rightarrow> Inl e
                      | Inr cands \<Rightarrow>
                          if n = 0 then Inl ZeroDivisionError
                          else to_selected_frames vi
                                 (sort_key fst
                                    (select_frames n (min_frame_interval_of vi n)
                                       (sort_key (\<lambda>x. - fst (snd x))
                                          (score_candidates cv (reset (frame_scorer a)) cands []))
                                       [])) []))"
  using assms
  by (simp add: analyze_video_def Let_def split: prod.splits option.splits sum.splits)

lemma analyze_video_Inr_cases:
  assumes "analyze_video cv a n = Some (Inr frames)"
  obtains (unloaded) "video_capture a = None \<or> video_info a = None" and "frames = []"
  | (run) cap vi ps cands where
      "video_capture a = Some cap" and "video_info a = Some vi"
      and "calculate_sample_positions a (fst (get_sampling_config a))
             (of_int (snd (get_sampling_config a))) = Some (Inr ps)"
      and "prefilter cv a ps [] = Inr cands" and "n \<noteq> 0"
      and "to_selected_frames vi
             (sort_key fst
                (select_frames n (min_frame_interval_of vi n)
                   (sort_key (\<lambda>x. - fst (snd x))
                      (score_candidates cv (reset (frame_scorer a)) cands []))
                   [])) [] = Inr frames"
proof (cases "video_capture a = None \<or> video_info a = None")
  case True
  with assms analyze_video_unloaded [OF True, of cv n] unloaded show ?thesis by simp
next
  case False
  then obtain cap vi where l: "video_capture a = Some cap" "video_info a = Some vi" by auto
  from assms show ?thesis
    unfolding analyze_video_loaded [OF l]
    by (auto split: option.splits sum.splits if_splits intro: run [OF l])
qed

text \<open>
  The analysis does return a list: for a loaded video whose sampling loop returns, a
  requested count other than zero and a frame rate other than zero, no exception is raised.
\<close>

lemma analyze_video_returns:
  fixes a :: "'f video_analyzer"
  assumes "video_capture a = Some cap" and "video_info a = Some vi"
    and "calculate_sample_positions a (fst (get_sampling_config a))
           (of_int (snd (get_sampling_config a))) = Some (Inr ps)"
    and "num_frames \<noteq> 0" and "fps vi \<noteq> 0"
  shows "\<exists>frames. analyze_video cv a num_frames = Some (Inr frames)"
proof -
  from prefilter_loaded [OF assms(1,2)] obtain cands where
    "prefilter cv a ps [] = Inr cands" by blast
  with assms(3-5) show ?thesis
    by (simp add: analyze_video_loaded [OF assms(1,2)] to_selected_frames_eq)
qed


text \<open>
  C4. Every frame in the list returned by \<^verbatim>\<open>analyze_video\<close> is at a sampled position,
  was decoded there, and has a fast sharpness above 0.15: positions that cannot be decoded
  or whose fast sharpness is at most 0.15 are dropped by the pre-filter and never reach
  scoring or selection.
\<close>

theorem selection_passed_prefilter:
  fixes a :: "'f video_analyzer"
  assumes "analyze_video cv a num_frames = Some (Inr frames)"
    and "fr \<in> set frames"
  shows "(\<exists>ps. calculate_sample_positions a (fst (get_sampling_config a))
                  (of_int (snd (get_sampling_config a))) = Some (Inr ps) \<and>
               frame_number fr \<in> set ps) \<and>
         get_frame_at_position a (frame_number fr) = Inr (Some (image fr)) \<and>
         15 / 100 < calculate_sharpness_fast cv (image fr)"
  using assms(1)
proof (cases rule: analyze_video_Inr_cases)
  case unloaded
  with assms(2) show ?thesis by simp
next
  case (run cap vi ps cands)
  define scored where "scored = score_candidates cv (reset (frame_scorer a)) cands []"
  define sel where "sel = select_frames num_frames (min_frame_interval_of vi num_frames)
                            (sort_key (\<lambda>x. - fst (snd x)) scored) []"
  from run(6) assms(2) obtain x where x: "x \<in> set sel"
    and fr: "frame_number fr = fst x" "image fr = snd (snd (snd x))"
    by (auto simp: to_selected_frames_eq sel_def scored_def split: if_splits)
  from x select_frames_subset [of num_frames _ "sort_key (\<lambda>x. - fst (snd x)) scored" "[]"]
  have "x \<in> set scored" by (auto simp: sel_def)
  then have "(fst x, snd (snd (snd x))) \<in> set (map (\<lambda>x. (fst x, snd (snd (snd x)))) scored)"
    by force
  then obtain c where c: "c \<in> set cands" "fst c = fst x" "fst (snd c) = snd (snd (snd x))"
    unfolding scored_def score_candidates_frames by auto
  from prefilter_survivors [OF run(4) c(1)] c fr run(3) show ?thesis by auto
qed

text \<open>
  C7 (amended). For a loaded video whose sampling loop returns, and a requested count other
  than zero, if every sampled position either cannot be decoded or has a fast sharpness of
  at most 0.15, then \<^verbatim>\<open>analyze_video\<close> returns the empty list and raises nothing.
\<close>

theorem all_filtered_gives_empty:
  fixes a :: "'f video_analyzer"
  assumes "video_capture a = Some cap" and "video_info a = Some vi"
    and "calculate_sample_positions a (fst (get_sampling_config a))
           (of_int (snd (get_sampling_config a))) = Some (Inr ps)"
    and "num_frames \<noteq> 0"
    and "\<forall>p \<in> set ps. \<forall>f. get_frame_at_position a p = Inr (Some f) \<longrightarrow>
            calculate_sharpness_fast cv f \<le> 15 / 100"
  shows "analyze_video cv a num_frames = Some (Inr [])"
proof -
  from prefilter_loaded [OF assms(1,2)] obtain cands where
    cands: "prefilter cv a ps [] = Inr cands" by blast
  have "cands = []"
  proof (rule ccontr)
    assume "cands \<noteq> []"
    then obtain c where "c \<in> set cands" by (cases cands) auto
    from prefilter_survivors [OF cands this] assms(5) show False by force
  qed
  with cands assms(3,4) show ?thesis
    by (simp add: analyze_video_loaded [OF assms(1,2)])
qed

lemma demo_config: "get_sampling_config (demo_analyzer demo_video) = (500, 2)"
  by (simp add: get_sampling_config_def demo_analyzer_def demo_video_def demo_info_def
      SAMPLING_CONFIG_def)

lemma demo_positions:
  "calculate_sample_positions (demo_analyzer demo_video) 500 2
     = Some (Inr [5, 7, 9, 11, 13, 15, 17, 19, 21, 23, 25, 27, 29, 31, 33, 35, 37, 39, 41, 43])"
  by (simp add: calculate_sample_positions_def demo_analyzer_def demo_video_def demo_info_def
      int_of_float_def Let_def sample_loop.simps)

lemma demo_prefilter:
  "prefilter demo_cv (demo_analyzer demo_video)
     [5, 7, 9, 11, 13, 15, 17, 19, 21, 23, 25, 27, 29, 31, 33, 35, 37, 39, 41, 43] []
   = Inr [(7, 7, 4 / 5), (9, 9, 4 / 5), (41, 41, 4 / 5)]"
  by (simp add: get_frame_at_position_def demo_analyzer_def demo_video_def demo_info_def
      demo_capture_def demo_cv_def calculate_sharpness_fast_def Let_def)


lemma demo_scored:
  "score_candidates demo_cv (reset (frame_scorer (demo_analyzer demo_video)))
     [(7, 7, 4 / 5), (9, 9, 4 / 5), (41, 41, 4 / 5)] []
   = [(7, 13 / 25, \<lparr>face_score = 9 / 10, sharpness = 7 / 50, stability = 7 / 50,
                       total_score = 13 / 25\<rparr>, 7),
      (9, 7 / 50, \<lparr>face_score = 1 / 10, sharpness = 9 / 50, stability = 9 / 50,
                     total_score = 7 / 50\<rparr>, 9),
      (41, 23 / 50, \<lparr>face_score = 1 / 10, sharpness = 41 / 50, stability = 41 / 50,
                       total_score = 23 / 50\<rparr>, 41)]"
  by (simp add: score_frame_def reset_def demo_analyzer_def default_scorer_def demo_cv_def
      calculate_sharpness_def Let_def)

lemma demo_run:
  "analyze_video demo_cv (demo_analyzer demo_video) 3 = Some (Inr demo_selected)"
proof -
  have l: "video_capture (demo_analyzer demo_video) = Some demo_capture"
    "video_info (demo_analyzer demo_video) = Some demo_video"
    by (simp_all add: demo_analyzer_def)
  have mi: "min_frame_interval_of demo_video 3 = 30"
    by (simp add: min_frame_interval_of_def demo_video_def demo_info_def int_of_float_def)
  have fps: "fps demo_video = 1" by (simp add: demo_video_def demo_info_def)
  show ?thesis
    unfolding analyze_video_loaded [OF l] demo_config
    by (simp add: demo_positions demo_prefilter demo_scored mi fps demo_selected_def
        del: prefilter.simps score_candidates.simps)
qed


theorem selection_passed_prefilter_witness:
  "analyze_video demo_cv (demo_analyzer demo_video) 3 = Some (Inr demo_selected) \<and>
   demo_selected ! 1 \<in> set demo_selected \<and>
   frame_number (demo_selected ! 1) = 41 \<and>
   get_frame_at_position (demo_analyzer demo_video) 41 = Inr (Some (image (demo_selected ! 1))) \<and>
   15 / 100 < calculate_sharpness_fast demo_cv (image (demo_selected ! 1))"
proof -
  have mem: "demo_selected ! 1 \<in> set demo_selected"
    by (simp add: demo_selected_def)
  have num: "frame_number (demo_selected ! 1) = 41"
    by (simp add: demo_selected_def)
  from selection_passed_prefilter [OF demo_run mem] demo_run mem num show ?thesis
    by simp
qed

theorem all_filtered_gives_empty_witness:
  "analyze_video blurry_cv (demo_analyzer demo_video) 3 = Some (Inr [])"
proof -
  have l: "video_capture (demo_analyzer demo_video) = Some demo_capture"
    "video_info (demo_analyzer demo_video) = Some demo_video"
    by (simp_all add: demo_analyzer_def)
  have ps: "calculate_sample_positions (demo_analyzer demo_video)
              (fst (get_sampling_config (demo_analyzer demo_video)))
              (of_int (snd (get_sampling_config (demo_analyzer demo_video))))
            = Some (Inr [5, 7, 9, 11, 13, 15, 17, 19, 21, 23, 25, 27, 29, 31, 33, 35, 37, 39,
                         41, 43])"
    by (simp add: demo_config demo_positions)
  have blurry: "calculate_sharpness_fast blurry_cv f \<le> 15 / 100" for f
    by (simp add: blurry_cv_def demo_cv_def calculate_sharpness_fast_def)
  then have fail: "\<forall>p \<in> set [5, 7, 9, 11, 13, 15, 17, 19, 21, 23, 25, 27, 29, 31, 33, 35, 37,
                               39, 41, 43 :: int].
                  \<forall>f. get_frame_at_position (demo_analyzer demo_video) p = Inr (Some f) \<longrightarrow>
                      calculate_sharpness_fast blurry_cv f \<le> 15 / 100"
    by blast
  show ?thesis
    by (rule all_filtered_gives_empty [OF l ps _ fail]) simp
qed

text \<open>
  C7 as stated fails. With every frame blurred, a requested count of 0 raises
  \<^verbatim>\<open>ZeroDivisionError\<close> in \<^verbatim>\<open>frame_count // (num_frames * 2)\<close>; and on the recording of
  60 frames at 0.25 frames per second the sampling loop, and with it the analysis, never
  returns.
\<close>

theorem analyze_video_raises_or_diverges:
  "analyze_video blurry_cv (demo_analyzer demo_video) 0 = Some (Inl ZeroDivisionError) \<and>
   analyze_video blurry_cv (demo_analyzer slow_video) 5 = None"
proof -
  have l: "video_capture (demo_analyzer demo_video) = Some demo_capture"
    "video_info (demo_analyzer demo_video) = Some demo_video"
    by (simp_all add: demo_analyzer_def)
  from prefilter_loaded [OF l] obtain cands where
    "prefilter blurry_cv (demo_analyzer demo_video)
       [5, 7, 9, 11, 13, 15, 17, 19, 21, 23, 25, 27, 29, 31, 33, 35, 37, 39, 41, 43] []
     = Inr cands" by blast
  then have 1: "analyze_video blurry_cv (demo_analyzer demo_video) 0
                  = Some (Inl ZeroDivisionError)"
    unfolding analyze_video_loaded [OF l] demo_config
    by (simp add: demo_positions del: prefilter.simps)
  have s: "video_capture (demo_analyzer slow_video) = Some demo_capture"
    "video_info (demo_analyzer slow_video) = Some slow_video"
    by (simp_all add: demo_analyzer_def)
  have "get_sampling_config (demo_analyzer slow_video) = (500, 2)"
    by (simp add: get_sampling_config_def demo_analyzer_def slow_video_def demo_info_def
        SAMPLING_CONFIG_def)
  then have 2: "analyze_video blurry_cv (demo_analyzer slow_video) 5 = None"
    unfolding analyze_video_loaded [OF s]
    by (simp add: slow_video_sampling_diverges)
  from 1 2 show ?thesis by simp
qed

section \<open>Timestamps: properties\<close>







section \<open>Face detection: properties\<close>









section \<open>Parallel analysis: properties\<close>

lemma score_frame_fast: "fast_mode s \<Longrightarrow> snd (score_frame cv s f) = s"
  by (simp add: score_frame_def Let_def)

lemma chunk_loop_fast:
  "fast_mode s \<Longrightarrow>
   chunk_loop cv cap s ps acc = acc @ concat (map (scored_entry cv s cap) ps)"
proof (induction ps arbitrary: acc)
  case Nil
  show ?case by simp
next
  case (Cons p ps)
  show ?case
  proof (cases "cap p")
    case None
    with Cons show ?thesis by (simp add: scored_entry_def)
  next
    case (Some f)
    obtain sc s' where sf: "score_frame cv s f = (sc, s')" by (cases "score_frame cv s f")
    with score_frame_fast [OF Cons.prems, of cv f] have "s' = s" by simp
    with Some sf Cons show ?thesis by (simp add: scored_entry_def)
  qed
qed

lemma score_candidates_fast:
  "fast_mode s \<Longrightarrow>
   score_candidates cv s cs acc =
     acc @ map (\<lambda>c. (fst c, total_score (fst (score_frame cv s (fst (snd c)))),
                       fst (score_frame cv s (fst (snd c))), fst (snd c))) cs"
proof (induction cs arbitrary: acc)
  case Nil
  show ?case by simp
next
  case (Cons c cs)
  obtain n f sh where c: "c = (n, f, sh)" by (cases c)
  obtain sc s' where sf: "score_frame cv s f = (sc, s')" by (cases "score_frame cv s f")
  with score_frame_fast [OF Cons.prems, of cv f] have "s' = s" by simp
  with c sf Cons show ?case by simp
qed

lemma serial_scored_fast:
  assumes "video_capture a = Some cap" and "video_info a = Some vi" and "fast_mode s"
  shows "prefilter cv a ps acc = Inr cands \<Longrightarrow>
         score_candidates cv s cands [] =
           score_candidates cv s acc [] @
           concat (map (scored_entry cv s
                          (\<lambda>n. if n < 0 \<or> frame_count vi \<le> n then None else cap n)) ps)"
proof (induction ps arbitrary: acc)
  case Nil
  then show ?case by simp
next
  case (Cons p ps)
  let ?cap = "\<lambda>n. if n < 0 \<or> frame_count vi \<le> n then None else cap n"
  have g: "get_frame_at_position a p = Inr (?cap p)"
    by (rule get_frame_loaded [OF assms(1,2)])
  show ?case
  proof (cases "?cap p")
    case None
    with g Cons.prems have "prefilter cv a ps acc = Inr cands" by simp
    from Cons.IH [OF this] None show ?thesis by (simp add: scored_entry_def)
  next
    case (Some f)
    show ?thesis
    proof (cases "15 / 100 < calculate_sharpness_fast cv f")
      case True
      with g Some Cons.prems
      have "prefilter cv a ps (acc @ [(p, f, calculate_sharpness_fast cv f)]) = Inr cands"
        by (simp add: Let_def)
      from Cons.IH [OF this] Some True show ?thesis
        by (simp add: scored_entry_def score_candidates_fast [OF assms(3)])
    next
      case False
      with g Some Cons.prems have "prefilter cv a ps acc = Inr cands"
        by (simp add: Let_def)
      from Cons.IH [OF this] Some False show ?thesis by (simp add: scored_entry_def)
    qed
  qed
qed

lemma sample_loop_range:
  assumes "sample_loop pos stop interval acc = Some ps" and "x \<in> set ps"
  shows "x \<in> set acc \<or> (pos \<le> x \<and> x < stop)"
proof (cases "1 \<le> interval")
  case True
  from sample_loop_closed [OF True, of pos stop acc] assms(1) obtain n where
    ps: "ps = acc @ map (\<lambda>k. pos + int k * interval) [0..<n]"
    and below: "\<forall>k<n. pos + int k * interval < stop"
    by auto
  from assms(2) ps consider "x \<in> set acc" | k where "k < n" "x = pos + int k * interval"
    by auto
  then show ?thesis
  proof cases
    case 1
    then show ?thesis by simp
  next
    case 2
    from True have "0 \<le> int k * interval" by simp
    with 2 below show ?thesis by auto
  qed
next
  case False
  then have "interval \<le> 0" by simp
  with sample_loop_Some_imp [OF assms(1)] have "stop \<le> pos" by simp
  then have "sample_loop pos stop interval acc = Some acc"
    by (subst sample_loop.simps) simp
  with assms show ?thesis by simp
qed

lemma sample_positions_in_range:
  assumes "video_info a = Some vi" and "0 \<le> fps vi"
    and "calculate_sample_positions a num_samples min_interval_sec = Some (Inr ps)"
    and "x \<in> set ps"
  shows "0 \<le> x \<and> x < frame_count vi"
proof -
  from assms(2) have start: "0 \<le> int_of_float (fps vi * 5)"
    by (simp add: int_of_float_def)
  from assms(1,3) have "num_samples \<noteq> 0"
    by (auto simp: calculate_sample_positions_def Let_def)
  from assms(3) obtain interval where
    "sample_loop (int_of_float (fps vi * 5)) (frame_count vi - int_of_float (fps vi * 5))
       interval [] = Some ps"
    unfolding calculate_sample_positions_loop [OF assms(1) \<open>num_samples \<noteq> 0\<close>] by auto
  from sample_loop_range [OF this assms(4)] start show ?thesis by simp
qed

lemma extend_results_Inr:
  "extend_results (map Inr xss) acc = Inr (acc @ concat xss)"
  by (induction xss arbitrary: acc) simp_all

lemma permuted_Inr:
  fixes ys :: "('e + 'a) list"
  assumes "mset ys = mset (map Inr xss)"
  shows "\<exists>yss. ys = map Inr yss \<and> mset yss = mset xss"
proof -
  define zs where "zs = map projr ys"
  from assms have "set ys = set (map Inr xss)" by (rule mset_eq_setD)
  then have "\<forall>y \<in> set ys. \<exists>l. y = Inr l" by auto
  then have "ys = map Inr (map projr ys)"
    by (induction ys) auto
  then have ys: "ys = map Inr zs" by (simp only: zs_def)
  from assms have "mset (map Inr zs :: ('e + 'a) list) = mset (map Inr xss)"
    unfolding ys .
  then have "image_mset (Inr :: 'a \<Rightarrow> 'e + 'a) (mset zs) = image_mset Inr (mset xss)"
    by simp
  then have "image_mset projr (image_mset (Inr :: 'a \<Rightarrow> 'e + 'a) (mset zs))
               = image_mset projr (image_mset (Inr :: 'a \<Rightarrow> 'e + 'a) (mset xss))"
    by (rule arg_cong)
  then have "mset zs = mset xss"
    by (simp add: multiset.map_comp comp_def)
  with ys show ?thesis by blast
qed

lemma mset_concat_cong:
  assumes "mset yss = mset xss"
  shows "mset (concat yss) = mset (concat xss)"
proof -
  have "mset (concat zss) = sum_mset (image_mset mset (mset zss))" for zss :: "'a list list"
    by (induction zss) simp_all
  with assms show ?thesis by simp
qed

lemma mset_concat_map_cong:
  "mset ys = mset xs \<Longrightarrow> mset (concat (map g ys)) = mset (concat (map g xs))"
  by (rule mset_concat_cong) simp

lemma concat_filter_nonempty: "concat (filter (\<lambda>c. c \<noteq> []) css) = concat css"
  by (induction css) auto

lemma concat_map_concat_map:
  "concat (map (\<lambda>c. concat (map g c)) css) = concat (map g (concat css))"
  by (induction css) auto

lemma mset_filter_classes:
  "mset (concat (map (\<lambda>i. filter (\<lambda>k. f k = i) ks) [0..<w]))
     = mset (filter (\<lambda>k. f k < w) ks)"
proof (induction w)
  case 0
  show ?case by simp
next
  case (Suc w)
  have "mset (filter (\<lambda>k. f k < w) ks) + mset (filter (\<lambda>k. f k = w) ks)
          = mset (filter (\<lambda>k. f k < Suc w) ks)"
    by (induction ks) auto
  with Suc show ?case by simp
qed

lemma slice_step_filter:
  assumes "i < w"
  shows "slice_step i w xs = map (nth xs) (filter (\<lambda>k. k mod w = i) [0..<length xs])"
proof -
  have "filter (\<lambda>k. (k - i) mod w = 0) [i..<n] = filter (\<lambda>k. k mod w = i) [0..<n]" for n
  proof (cases "i \<le> n")
    case True
    then have split: "[0..<n] = [0..<i] @ [i..<n]"
      by (metis le0 upt_add_eq_append le_add_diff_inverse)
    have low: "filter (\<lambda>k. k mod w = i) [0..<i] = []"
      using assms by (auto simp: filter_empty_conv)
    have "(k - i) mod w = 0 \<longleftrightarrow> k mod w = i" if "i \<le> k" for k
      using mod_eq_dvd_iff_nat [OF that, of w] assms by (auto simp: mod_eq_0_iff_dvd)
    then have "filter (\<lambda>k. (k - i) mod w = 0) [i..<n] = filter (\<lambda>k. k mod w = i) [i..<n]"
      by (intro filter_cong) auto
    with split low show ?thesis by simp
  next
    case False
    then have "filter (\<lambda>k. k mod w = i) [0..<n] = []"
      using assms by (auto simp: filter_empty_conv)
    with False show ?thesis by simp
  qed
  then show ?thesis by (simp add: slice_step_def)
qed

lemma mset_chunks:
  assumes "0 < w"
  shows "mset (concat (map (\<lambda>i. slice_step i w xs) [0..<w])) = mset xs"
proof -
  have chunks: "map (\<lambda>i. slice_step i w xs) [0..<w]
          = map (\<lambda>i. map (nth xs) (filter (\<lambda>k. k mod w = i) [0..<length xs])) [0..<w]"
    by (rule map_cong) (simp_all add: slice_step_filter)
  have "concat (map (\<lambda>i. map (nth xs) (filter (\<lambda>k. k mod w = i) [0..<length xs])) [0..<w])
          = map (nth xs) (concat (map (\<lambda>i. filter (\<lambda>k. k mod w = i) [0..<length xs]) [0..<w]))"
    by (simp add: map_concat comp_def)
  then have "concat (map (\<lambda>i. slice_step i w xs) [0..<w])
          = map (nth xs) (concat (map (\<lambda>i. filter (\<lambda>k. k mod w = i) [0..<length xs]) [0..<w]))"
    by (simp only: chunks)
  then have "mset (concat (map (\<lambda>i. slice_step i w xs) [0..<w]))
          = image_mset (nth xs) (mset (filter (\<lambda>k. k mod w < w) [0..<length xs]))"
    by (simp add: mset_filter_classes del: mset_filter)
  also have "\<dots> = mset (map (nth xs) [0..<length xs])"
    using assms by simp
  also have "\<dots> = mset xs" by (simp add: map_nth)
  finally show ?thesis .
qed

lemma sort_key_unique:
  assumes "mset xs = mset ys" and "distinct (map f xs)"
  shows "sort_key f xs = sort_key f ys"
proof (rule sort_key_inj_key_eq)
  show "mset xs = mset (sort_key f ys)" using assms(1) by simp
  show "inj_on f (set xs)" using assms(2) by (simp add: distinct_map)
  show "sorted (map f (sort_key f ys))" by simp
qed

lemma too_close_any_eq: "too_close_any n mi sel = too_close n mi sel"
  by (simp add: too_close_any_def too_close_iff list_ex_iff)

lemma select_frames_parallel_eq:
  "select_frames_parallel n mi cs sel = select_frames n mi cs sel"
  by (induction cs arbitrary: sel) (simp_all add: too_close_any_eq)

lemma analyze_video_parallel_loaded:
  assumes "video_info a = Some vi"
  shows "analyze_video_parallel cv as_completed a n num_workers =
           (case calculate_sample_positions a (fst (get_sampling_config a))
                   (of_int (snd (get_sampling_config a))) of
              None \<Rightarrow> None
            | Some (Inl e) \<Rightarrow> Some (Inl e)
            | Some (Inr ps) \<Rightarrow>
                Some (if num_workers \<le> 0 then Inl ValueError
                      else case extend_results
                                  (as_completed
                                     (map (\<lambda>chunk. analyze_chunk cv chunk (video_path a))
                                        (filter (\<lambda>chunk. chunk \<noteq> [])
                                           (map (\<lambda>i. slice_step i (nat num_workers) ps)
                                              [0..<nat num_workers])))) [] of
                             Inl e \<Rightarrow> Inl e
                           | Inr results \<Rightarrow>
                               if n = 0 then Inl ZeroDivisionError
                               else to_selected_frames vi
                                      (sort_key fst
                                         (select_frames_parallel n (min_frame_interval_of vi n)
                                            (sort_key (\<lambda>x. - fst (snd x)) results) [])) []))"
  using assms
  by (simp add: analyze_video_parallel_def Let_def split: prod.splits option.splits sum.splits)

text \<open>
  The two paths agree whenever the analyzer's own scorer is the default fast-mode scorer
  that every worker builds: for a loaded video with a non-negative frame rate whose file
  yields the same frames on every capture, at least one worker, any completion order of
  the workers, and no two candidates with the same total score, the parallel path returns
  exactly what the serial path returns (the same list, the same exception, or neither
  returns).
\<close>

lemma parallel_agrees_with_serial:
  fixes a :: "'f video_analyzer"
  assumes cap: "video_capture a = Some cap"
    and info: "video_info a = Some vi"
    and path: "video_path a = Some p"
    and same: "\<forall>n. 0 \<le> n \<and> n < frame_count vi \<longrightarrow> VideoCapture cv p n = cap n"
    and fps: "0 \<le> fps vi"
    and scorer: "FrameScorer_init (1 / 2) (3 / 10) (2 / 10) True = Inr (reset (frame_scorer a))"
    and workers: "1 \<le> num_workers"
    and perm: "\<forall>fs. mset (as_completed fs) = mset fs"
    and no_ties:
      "\<forall>ps cands.
         calculate_sample_positions a (fst (get_sampling_config a))
           (of_int (snd (get_sampling_config a))) = Some (Inr ps) \<longrightarrow>
         prefilter cv a ps [] = Inr cands \<longrightarrow>
         distinct (map (\<lambda>x. fst (snd x))
                     (score_candidates cv (reset (frame_scorer a)) cands []))"
  shows "analyze_video_parallel cv as_completed a n num_workers = analyze_video cv a n"
proof (cases "calculate_sample_positions a (fst (get_sampling_config a))
                (of_int (snd (get_sampling_config a)))")
  case None
  then show ?thesis
    by (simp add: analyze_video_parallel_loaded [OF info] analyze_video_loaded [OF cap info])
next
  case (Some r)
  show ?thesis
  proof (cases r)
    case (Inl e)
    with Some show ?thesis
      by (simp add: analyze_video_parallel_loaded [OF info] analyze_video_loaded [OF cap info])
  next
    case (Inr ps)
    with Some have planner:
      "calculate_sample_positions a (fst (get_sampling_config a))
         (of_int (snd (get_sampling_config a))) = Some (Inr ps)" by simp
    define s where "s = reset (frame_scorer a)"
    define g where "g = scored_entry cv s (VideoCapture cv p)"
    define w where "w = nat num_workers"
    define nonempty where
      "nonempty = filter (\<lambda>chunk. chunk \<noteq> []) (map (\<lambda>i. slice_step i w ps) [0..<w])"
    from scorer have "s = \<lparr>face_weight = 1 / 2, sharpness_weight = 3 / 10,
                          stability_weight = 1 / 5, fast_mode = True,
                          previous_frame = None\<rparr>"
      by (simp add: FrameScorer_init_def s_def Let_def)
    then have fast: "fast_mode s" by simp
    from workers have w: "0 < w" by (simp add: w_def)
    from prefilter_loaded [OF cap info] obtain cands where
      cands: "prefilter cv a ps [] = Inr cands" by blast
    \<comment> \<open>the serial path\<close>
    have "scored_entry cv s (\<lambda>n. if n < 0 \<or> frame_count vi \<le> n then None else cap n) x = g x"
      if "x \<in> set ps" for x
      using sample_positions_in_range [OF info fps planner that] same
      by (simp add: scored_entry_def g_def)
    then have serial: "score_candidates cv s cands [] = concat (map g ps)"
      using serial_scored_fast [OF cap info fast cands] by (simp cong: map_cong)
    \<comment> \<open>the workers\<close>
    have chunk: "analyze_chunk cv c (video_path a) = Inr (concat (map g c))" for c
      using scorer by (simp add: analyze_chunk_def path s_def [symmetric] g_def
          chunk_loop_fast [OF fast])
    then have futures:
      "map (\<lambda>c. analyze_chunk cv c (video_path a)) nonempty
         = map Inr (map (\<lambda>c. concat (map g c)) nonempty)"
      by simp
    from perm have "mset (as_completed (map (\<lambda>c. analyze_chunk cv c (video_path a)) nonempty))
        = mset (map Inr (map (\<lambda>c. concat (map g c)) nonempty))"
      by (simp only: futures)
    from permuted_Inr [OF this] obtain yss where
      completed: "as_completed (map (\<lambda>c. analyze_chunk cv c (video_path a)) nonempty)
                    = map Inr yss"
      and yss: "mset yss = mset (map (\<lambda>c. concat (map g c)) nonempty)"
      by blast
    have results: "extend_results
                     (as_completed (map (\<lambda>c. analyze_chunk cv c (video_path a)) nonempty)) []
                   = Inr (concat yss)"
      by (simp add: completed extend_results_Inr)
    have "mset (concat yss) = mset (concat (map (\<lambda>c. concat (map g c)) nonempty))"
      by (rule mset_concat_cong [OF yss])
    also have "\<dots> = mset (concat (map g (concat nonempty)))"
      by (simp only: concat_map_concat_map)
    also have "concat nonempty = concat (map (\<lambda>i. slice_step i w ps) [0..<w])"
      by (simp only: nonempty_def concat_filter_nonempty)
    also have "mset (concat (map g (concat (map (\<lambda>i. slice_step i w ps) [0..<w]))))
                 = mset (concat (map g ps))"
      by (rule mset_concat_map_cong) (rule mset_chunks [OF w])
    finally have same_mset: "mset (concat yss) = mset (score_candidates cv s cands [])"
      by (simp only: serial)
    from no_ties planner cands have "distinct (map (\<lambda>x. fst (snd x))
                                       (score_candidates cv s cands []))"
      by (simp add: s_def)
    then have "distinct (map (\<lambda>x. - fst (snd x)) (score_candidates cv s cands []))"
      by (simp add: distinct_map inj_on_def)
    with same_mset have "distinct (map (\<lambda>x. - fst (snd x)) (concat yss))"
      by (metis mset_eq_imp_distinct_iff mset_map)
    from sort_key_unique [OF same_mset this]
    have sorted_same: "sort_key (\<lambda>x. - fst (snd x)) (concat yss)
                         = sort_key (\<lambda>x. - fst (snd x)) (score_candidates cv s cands [])" .
    have nw: "\<not> num_workers \<le> 0" using workers by simp
    show ?thesis
      unfolding analyze_video_parallel_loaded [OF info] analyze_video_loaded [OF cap info]
        planner
      using results cands nw
      by (simp add: sorted_same select_frames_parallel_eq s_def w_def nonempty_def
          del: prefilter.simps)
  qed
qed

lemma broll_config: "get_sampling_config broll_analyzer = (500, 2)"
  by (simp add: get_sampling_config_def broll_analyzer_def demo_analyzer_def demo_video_def
      demo_info_def SAMPLING_CONFIG_def)

lemma broll_positions:
  "calculate_sample_positions broll_analyzer 500 2
     = Some (Inr [5, 7, 9, 11, 13, 15, 17, 19, 21, 23, 25, 27, 29, 31, 33, 35, 37, 39, 41, 43])"
  by (simp add: calculate_sample_positions_def broll_analyzer_def demo_analyzer_def
      demo_video_def demo_info_def int_of_float_def Let_def sample_loop.simps)

lemma broll_prefilter:
  "prefilter demo_cv broll_analyzer
     [5, 7, 9, 11, 13, 15, 17, 19, 21, 23, 25, 27, 29, 31, 33, 35, 37, 39, 41, 43] []
   = Inr [(7, 7, 4 / 5), (9, 9, 4 / 5), (41, 41, 4 / 5)]"
  by (simp add: get_frame_at_position_def broll_analyzer_def demo_analyzer_def demo_video_def
      demo_info_def demo_capture_def demo_cv_def calculate_sharpness_fast_def Let_def)

lemma broll_serial:
  "map_option (map_sum id (map frame_number)) (analyze_video demo_cv broll_analyzer 1)
     = Some (Inr [41])"
proof -
  have l: "video_capture broll_analyzer = Some demo_capture"
    "video_info broll_analyzer = Some demo_video"
    by (simp_all add: broll_analyzer_def demo_analyzer_def)
  have mi: "min_frame_interval_of demo_video 1 = 30"
    by (simp add: min_frame_interval_of_def demo_video_def demo_info_def int_of_float_def)
  have fps: "fps demo_video = 1" by (simp add: demo_video_def demo_info_def)
  have scored: "score_candidates demo_cv (reset (frame_scorer broll_analyzer))
     [(7, 7, 4 / 5), (9, 9, 4 / 5), (41, 41, 4 / 5)] []
   = [(7, 27 / 125, \<lparr>face_score = 9 / 10, sharpness = 7 / 50, stability = 7 / 50,
                       total_score = 27 / 125\<rparr>, 7),
      (9, 43 / 250, \<lparr>face_score = 1 / 10, sharpness = 9 / 50, stability = 9 / 50,
                     total_score = 43 / 250\<rparr>, 9),
      (41, 187 / 250, \<lparr>face_score = 1 / 10, sharpness = 41 / 50, stability = 41 / 50,
                       total_score = 187 / 250\<rparr>, 41)]"
  by (simp add: score_frame_def reset_def broll_analyzer_def demo_cv_def
      calculate_sharpness_def Let_def)
  show ?thesis
    unfolding analyze_video_loaded [OF l] broll_config
    by (simp add: broll_positions broll_prefilter scored mi fps
        del: prefilter.simps score_candidates.simps)
qed

lemma demo_chunks:
  "map (\<lambda>i. slice_step i 4
           [5, 7, 9, 11, 13, 15, 17, 19, 21, 23, 25, 27, 29, 31, 33, 35, 37, 39, 41, 43 :: int])
     [0..<4]
   = [[5, 13, 21, 29, 37], [7, 15, 23, 31, 39], [9, 17, 25, 33, 41], [11, 19, 27, 35, 43]]"
  by code_simp


lemma demo_chunk_results:
  "map (\<lambda>chunk. analyze_chunk demo_cv chunk (Some ''talk.mp4''))
     [[5, 13, 21, 29, 37], [7, 15, 23, 31, 39], [9, 17, 25, 33, 41], [11, 19, 27, 35, 43]]
   = [Inr [],
      Inr [(7, 13 / 25, \<lparr>face_score = 9 / 10, sharpness = 7 / 50, stability = 7 / 50,
                           total_score = 13 / 25\<rparr>, 7)],
      Inr [(9, 7 / 50, \<lparr>face_score = 1 / 10, sharpness = 9 / 50, stability = 9 / 50,
                         total_score = 7 / 50\<rparr>, 9),
           (41, 23 / 50, \<lparr>face_score = 1 / 10, sharpness = 41 / 50, stability = 41 / 50,
                           total_score = 23 / 50\<rparr>, 41)],
      Inr []]"
  by (simp add: analyze_chunk_def FrameScorer_init_def score_frame_def demo_cv_def
      demo_capture_def calculate_sharpness_def calculate_sharpness_fast_def Let_def)

lemma broll_parallel:
  "map_option (map_sum id (map frame_number))
     (analyze_video_parallel demo_cv (\<lambda>futures. futures) broll_analyzer 1 4)
   = Some (Inr [7])"
proof -
  have l: "video_info broll_analyzer = Some demo_video"
    by (simp add: broll_analyzer_def demo_analyzer_def)
  have p: "video_path broll_analyzer = Some ''talk.mp4''"
    by (simp add: broll_analyzer_def demo_analyzer_def)
  have mi: "min_frame_interval_of demo_video 1 = 30"
    by (simp add: min_frame_interval_of_def demo_video_def demo_info_def int_of_float_def)
  have fps: "fps demo_video = 1" by (simp add: demo_video_def demo_info_def)
  have nonempty: "filter (\<lambda>chunk. chunk \<noteq> [])
       [[5, 13, 21, 29, 37], [7, 15, 23, 31, 39], [9, 17, 25, 33, 41], [11, 19, 27, 35, 43 :: int]]
     = [[5, 13, 21, 29, 37], [7, 15, 23, 31, 39], [9, 17, 25, 33, 41], [11, 19, 27, 35, 43]]"
    by simp
  have "analyze_video_parallel demo_cv (\<lambda>futures. futures) broll_analyzer 1 4
        = Some (if (4 :: int) \<le> 0 then Inl ValueError
                else case extend_results
                  [Inr [],
                   Inr [(7, 13 / 25, \<lparr>face_score = 9 / 10, sharpness = 7 / 50,
                           stability = 7 / 50, total_score = 13 / 25\<rparr>, 7)],
                   Inr [(9, 7 / 50, \<lparr>face_score = 1 / 10, sharpness = 9 / 50,
                           stability = 9 / 50, total_score = 7 / 50\<rparr>, 9),
                        (41, 23 / 50, \<lparr>face_score = 1 / 10, sharpness = 41 / 50,
                           stability = 41 / 50, total_score = 23 / 50\<rparr>, 41)],
                   Inr []] [] of
                  Inl e \<Rightarrow> Inl e
                | Inr results \<Rightarrow>
                    if (1 :: int) = 0 then Inl ZeroDivisionError
                    else to_selected_frames demo_video
                           (sort_key fst
                              (select_frames_parallel 1 (min_frame_interval_of demo_video 1)
                                 (sort_key (\<lambda>x. - fst (snd x)) results) [])) [])"
    unfolding analyze_video_parallel_loaded [OF l] broll_config
    by (simp only: fst_conv snd_conv of_int_numeral broll_positions option.case sum.case p
        nat_numeral demo_chunks nonempty demo_chunk_results)
  then show ?thesis
    by (simp add: mi fps too_close_any_def)
qed

text \<open>
  C2. The parallel path is meant to select the frames that the serial path selects, but
  its workers score with \<^verbatim>\<open>FrameScorer(fast_mode=True)\<close> at the default weights, whereas
  the serial path scores with the analyzer's own scorer. After
  \<^verbatim>\<open>set_weights(0.1, 0.5, 0.4)\<close> on the example recording, with one requested frame and no
  two candidates of equal score, the serial path selects frame 41 and the parallel path
  (four workers) selects frame 7.
\<close>

theorem parallel_ignores_weights:
  "set_weights default_scorer (1 / 10) (1 / 2) (2 / 5) = Inr (frame_scorer broll_analyzer) \<and>
   map (\<lambda>x. fst (snd x))
     (score_candidates demo_cv (reset (frame_scorer broll_analyzer))
        [(7, 7, 4 / 5), (9, 9, 4 / 5), (41, 41, 4 / 5)] [])
     = [27 / 125, 43 / 250, 187 / 250] \<and>
   map_option (map_sum id (map frame_number)) (analyze_video demo_cv broll_analyzer 1)
     = Some (Inr [41]) \<and>
   map_option (map_sum id (map frame_number))
     (analyze_video_parallel demo_cv (\<lambda>futures. futures) broll_analyzer 1 4)
     = Some (Inr [7])"
proof -
  have "set_weights default_scorer (1 / 10) (1 / 2) (2 / 5) = Inr (frame_scorer broll_analyzer)"
    by (simp add: set_weights_def default_scorer_def broll_analyzer_def Let_def)
  moreover have "map (\<lambda>x. fst (snd x))
     (score_candidates demo_cv (reset (frame_scorer broll_analyzer))
        [(7, 7, 4 / 5), (9, 9, 4 / 5), (41, 41, 4 / 5)] [])
     = [27 / 125, 43 / 250, 187 / 250]"
    by (simp add: score_frame_def reset_def broll_analyzer_def demo_cv_def
        calculate_sharpness_def Let_def)
  ultimately show ?thesis using broll_serial broll_parallel by blast
qed

text \<open>With the default weights the two paths agree on the example recording.\<close>

lemma parallel_agrees_on_demo:
  "analyze_video_parallel demo_cv rev (demo_analyzer demo_video) 3 4
     = analyze_video demo_cv (demo_analyzer demo_video) 3"
proof (rule parallel_agrees_with_serial)
  show "video_capture (demo_analyzer demo_video) = Some demo_capture"
    by (simp add: demo_analyzer_def)
  show "video_info (demo_analyzer demo_video) = Some demo_video"
    by (simp add: demo_analyzer_def)
  show "video_path (demo_analyzer demo_video) = Some ''talk.mp4''"
    by (simp add: demo_analyzer_def)
  show "\<forall>n. 0 \<le> n \<and> n < frame_count demo_video \<longrightarrow>
          VideoCapture demo_cv ''talk.mp4'' n = demo_capture n"
    by (simp add: demo_cv_def)
  show "0 \<le> fps demo_video" by (simp add: demo_video_def demo_info_def)
  show "FrameScorer_init (1 / 2) (3 / 10) (2 / 10) True
          = Inr (reset (frame_scorer (demo_analyzer demo_video)))"
    by (simp add: FrameScorer_init_def reset_def demo_analyzer_def default_scorer_def Let_def)
  show "(1 :: int) \<le> 4" by simp
  show "\<forall>fs :: (py_error + nat scored list) list. mset (rev fs) = mset fs" by simp
  show "\<forall>ps cands.
         calculate_sample_positions (demo_analyzer demo_video)
           (fst (get_sampling_config (demo_analyzer demo_video)))
           (of_int (snd (get_sampling_config (demo_analyzer demo_video)))) = Some (Inr ps) \<longrightarrow>
         prefilter demo_cv (demo_analyzer demo_video) ps [] = Inr cands \<longrightarrow>
         distinct (map (\<lambda>x. fst (snd x))
                     (score_candidates demo_cv (reset (frame_scorer (demo_analyzer demo_video)))
                        cands []))"
  proof (intro allI impI)
    fix ps cands
    assume "calculate_sample_positions (demo_analyzer demo_video)
           (fst (get_sampling_config (demo_analyzer demo_video)))
           (of_int (snd (get_sampling_config (demo_analyzer demo_video)))) = Some (Inr ps)"
    then have ps: "ps = [5, 7, 9, 11, 13, 15, 17, 19, 21, 23, 25, 27, 29, 31, 33, 35, 37, 39,
                        41, 43]"
      by (simp add: demo_config demo_positions)
    assume "prefilter demo_cv (demo_analyzer demo_video) ps [] = Inr cands"
    then have "cands = [(7, 7, 4 / 5), (9, 9, 4 / 5), (41, 41, 4 / 5)]"
      unfolding ps demo_prefilter by simp
    then show "distinct (map (\<lambda>x. fst (snd x))
                     (score_candidates demo_cv (reset (frame_scorer (demo_analyzer demo_video)))
                        cands []))"
      by (simp add: demo_scored del: score_candidates.simps)
  qed
qed

end
